theory Spec2Isabelle
  imports Main "HOL-Library.AList" "HOL-Library.Sublist"
begin

section \<open>Values, arguments and options\<close>

text \<open>
  The ACL engine of \<^verbatim>\<open>src/lib/acl.ts\<close> is untyped for most of its parameters: user ids are
  \<^verbatim>\<open>string | number\<close>, and a missing argument is \<^verbatim>\<open>undefined\<close>. The values that travel
  through the engine are strings, (integral) numbers, \<^verbatim>\<open>null\<close> and \<^verbatim>\<open>undefined\<close>.
\<close>

datatype js_value = Str string | Num int | Null | Undefined

text \<open>JavaScript truthiness of such a value, as tested by \<^verbatim>\<open>if (x)\<close> and \<^verbatim>\<open>!x\<close>.\<close>

fun truthy :: "js_value \<Rightarrow> bool" where
  "truthy (Str s) = (s \<noteq> [])"
| "truthy (Num n) = (n \<noteq> 0)"
| "truthy Null = False"
| "truthy Undefined = False"

text \<open>
  Most parameters accept "a string or an array": \<open>One v\<close> is a single value (also the
  absent argument, \<open>One Undefined\<close>), \<open>Many vs\<close> an array. An array is always truthy.
\<close>

datatype arg = One js_value | Many "js_value list"

fun truthy_arg :: "arg \<Rightarrow> bool" where
  "truthy_arg (One v) = truthy v"
| "truthy_arg (Many vs) = True"

text \<open>\<^verbatim>\<open>function makeArray(arr) { return Array.isArray(arr) ? arr : [arr]; }\<close>\<close>

fun makeArray :: "arg \<Rightarrow> js_value list" where
  "makeArray (Many vs) = vs"
| "makeArray (One v) = [v]"

text \<open>
  The string form of a value, as a template literal or an object key takes it. Numbers are
  rendered in decimal.
\<close>

definition digit :: "nat \<Rightarrow> char" where
  "digit d = ''0123456789'' ! d"

function string_of_nat :: "nat \<Rightarrow> string" where
  "string_of_nat n =
     (if n < 10 then [digit n] else string_of_nat (n div 10) @ [digit (n mod 10)])"
  by pat_completeness auto
termination
  by (relation "measure id") auto

fun toString :: "js_value \<Rightarrow> string" where
  "toString (Str s) = s"
| "toString (Num n) = (if n < 0 then CHR ''-'' # string_of_nat (nat (- n)) else string_of_nat (nat n))"
| "toString Null = ''null''"
| "toString Undefined = ''undefined''"

text \<open>\<^verbatim>\<open>function allowsBucket(role) { return `allows_${role}`; }\<close>\<close>

definition allowsBucket :: "js_value \<Rightarrow> string" where
  "allowsBucket role = ''allows_'' @ toString role"

text \<open>\<^verbatim>\<open>function keyFromAllowsBucket(str) { return str.replace(/^allows_/, ""); }\<close>\<close>

definition keyFromAllowsBucket :: "string \<Rightarrow> string" where
  "keyFromAllowsBucket str = (if prefix ''allows_'' str then drop 7 str else str)"

text \<open>
  The bucket names of \<^verbatim>\<open>this.options.buckets\<close>; the constructor's defaults are
  \<open>default_options\<close>.
\<close>

record options =
  meta_bucket :: string
  parents_bucket :: string
  permissions_bucket :: string
  resources_bucket :: string
  roles_bucket :: string
  users_bucket :: string

definition default_options :: options where
  "default_options =
     \<lparr>meta_bucket = ''meta'', parents_bucket = ''parents'', permissions_bucket = ''permissions'',
      resources_bucket = ''resources'', roles_bucket = ''roles'', users_bucket = ''users''\<rparr>"

text \<open>\<^verbatim>\<open>_.union(a, b)\<close>: the values of both arrays, each once, in order of first occurrence.\<close>

definition lodash_union :: "js_value list \<Rightarrow> js_value list \<Rightarrow> js_value list" where
  "lodash_union xs ys = rev (remdups (rev (xs @ ys)))"

section \<open>The backend\<close>

text \<open>
  Modelled from the spec: the backend's state, a set-valued key/value store grouped into
  named buckets (the implementations of \<^verbatim>\<open>./backend\<close> are not among the sources). A
  store holds, for every bucket name and key, an array of values standing for a set; an
  absent key reads as the empty array.
\<close>

type_synonym store = "string \<Rightarrow> js_value \<Rightarrow> js_value list"

definition empty_store :: store where
  "empty_store = (\<lambda>bucket key. [])"

text \<open>
  Modelled from the spec: the mutations a transaction queues (\<^verbatim>\<open>add\<close>, \<^verbatim>\<open>remove\<close>,
  \<^verbatim>\<open>delete\<close>), and the reads a query issues (\<^verbatim>\<open>get\<close>, \<^verbatim>\<open>union\<close>, and the bulk union
  across buckets).
\<close>

datatype op = Add string js_value arg | Remove string js_value arg | Del string arg

type_synonym transaction = "op list"

datatype read = Get string js_value | Union string "js_value list"
  | Unions "string list" "js_value list"

text \<open>
  Modelled from the spec: the backend (\<^verbatim>\<open>./backend\<close> and its implementations are not
  among the sources). \<^verbatim>\<open>begin()\<close> returns an empty batch of queued mutations.
\<close>

definition backend_begin :: transaction where
  "backend_begin = []"

text \<open>
  Modelled from the spec: \<^verbatim>\<open>add(transactionHandle, bucket, key, value|values)\<close>, a queued
  set mutation.
\<close>

definition backend_add :: "transaction \<Rightarrow> string \<Rightarrow> js_value \<Rightarrow> arg \<Rightarrow> transaction" where
  "backend_add t bucket key vals = t @ [Add bucket key vals]"

text \<open>
  Modelled from the spec: \<^verbatim>\<open>remove(transactionHandle, bucket, key, value|values)\<close>, a
  queued set mutation.
\<close>

definition backend_remove :: "transaction \<Rightarrow> string \<Rightarrow> js_value \<Rightarrow> arg \<Rightarrow> transaction" where
  "backend_remove t bucket key vals = t @ [Remove bucket key vals]"

text \<open>
  Modelled from the spec: \<^verbatim>\<open>delete(transactionHandle, bucket, key)\<close>, a queued deletion
  of a key (the engine also passes an array of keys).
\<close>

definition backend_del :: "transaction \<Rightarrow> string \<Rightarrow> arg \<Rightarrow> transaction" where
  "backend_del t bucket keys = t @ [Del bucket keys]"

text \<open>
  Modelled from the spec: the effect of one queued mutation on the store, with set
  semantics: adding is a union, removing a difference, deleting a key empties it.
\<close>

fun apply_op :: "store \<Rightarrow> op \<Rightarrow> store" where
  "apply_op s (Add bucket key vals) =
     s(bucket := (s bucket)(key := List.union (s bucket key) (makeArray vals)))"
| "apply_op s (Remove bucket key vals) =
     s(bucket := (s bucket)(key := filter (\<lambda>v. v \<notin> set (makeArray vals)) (s bucket key)))"
| "apply_op s (Del bucket keys) =
     s(bucket := (\<lambda>key. if key \<in> set (makeArray keys) then [] else s bucket key))"

text \<open>
  Modelled from the spec: \<^verbatim>\<open>end(transactionHandle)\<close> applies the batch, in the order the
  mutations were queued (a backend failure is outside the model).
\<close>

definition backend_end :: "transaction \<Rightarrow> store \<Rightarrow> store" where
  "backend_end t s = foldl apply_op s t"

text \<open>
  Modelled from the spec: \<^verbatim>\<open>get(bucket, key) -> set of values\<close>, a point read. Every read
  returns its value together with the record of the read.
\<close>

definition backend_get :: "store \<Rightarrow> string \<Rightarrow> js_value \<Rightarrow> js_value list \<times> read list" where
  "backend_get s bucket key = (s bucket key, [Get bucket key])"

text \<open>
  Modelled from the spec: \<^verbatim>\<open>union(bucket, keys) -> set\<close>, the union of a bucket's values
  across the keys.
\<close>

definition backend_union :: "store \<Rightarrow> string \<Rightarrow> js_value list \<Rightarrow> js_value list \<times> read list" where
  "backend_union s bucket keys = (remdups (concat (map (s bucket) keys)), [Union bucket keys])"

text \<open>
  Modelled from the spec: the optional \<^verbatim>\<open>unionAcrossBuckets(buckets, keys) ->
  mapping(bucket -> set)\<close> (\<^verbatim>\<open>unions\<close> in the engine), one union per bucket, as an object
  keyed by bucket name.
\<close>

definition backend_unions ::
  "store \<Rightarrow> string list \<Rightarrow> js_value list \<Rightarrow> (string \<times> js_value list) list \<times> read list" where
  "backend_unions s buckets keys =
     (foldl (\<lambda>obj bucket. AList.update bucket (remdups (concat (map (s bucket) keys))) obj)
        [] buckets,
      [Unions buckets keys])"

section \<open>Mutations\<close>

text \<open>
  Every mutation queues its operations in a transaction and ends it; the functions take
  the store and return the store after the batch. Operations run one after the other,
  without interleaving.
\<close>

definition addUserRoles :: "options \<Rightarrow> store \<Rightarrow> js_value \<Rightarrow> arg \<Rightarrow> store" where
  "addUserRoles opts s userId roles =
     (let transaction = backend_begin;
          transaction = backend_add transaction (meta_bucket opts) (Str ''users'') (One userId);
          transaction = backend_add transaction (users_bucket opts) userId roles;
          transaction =
            (case roles of
               Many rs \<Rightarrow>
                 foldl (\<lambda>t role. backend_add t (roles_bucket opts) role (One userId)) transaction rs
             | One r \<Rightarrow> backend_add transaction (roles_bucket opts) r (One userId))
      in backend_end transaction s)"

definition addRoleParents :: "options \<Rightarrow> store \<Rightarrow> js_value \<Rightarrow> arg \<Rightarrow> store" where
  "addRoleParents opts s role parents =
     (let transaction = backend_begin;
          transaction = backend_add transaction (meta_bucket opts) (Str ''roles'') (One role);
          transaction = backend_add transaction (parents_bucket opts) role parents
      in backend_end transaction s)"

text \<open>\<^verbatim>\<open>removeRoleParents(role, parents)\<close>; the absent argument is \<open>One Undefined\<close>.\<close>

definition removeRoleParents :: "options \<Rightarrow> store \<Rightarrow> js_value \<Rightarrow> arg \<Rightarrow> store" where
  "removeRoleParents opts s role parents =
     (let transaction = backend_begin;
          transaction =
            (if truthy_arg parents
             then backend_remove transaction (parents_bucket opts) role parents
             else backend_del transaction (parents_bucket opts) (One role))
      in backend_end transaction s)"

definition removeRole :: "options \<Rightarrow> store \<Rightarrow> js_value \<Rightarrow> store" where
  "removeRole opts s role =
     (let resources = fst (backend_get s (resources_bucket opts) role);
          transaction = backend_begin;
          transaction =
            foldl (\<lambda>t resource. backend_del t (allowsBucket resource) (One role))
              transaction resources;
          transaction = backend_del transaction (resources_bucket opts) (One role);
          transaction = backend_del transaction (parents_bucket opts) (One role);
          transaction = backend_del transaction (roles_bucket opts) (One role);
          transaction = backend_remove transaction (meta_bucket opts) (Str ''roles'') (One role)
      in backend_end transaction s)"

text \<open>
  \<^verbatim>\<open>allow(roles, resources, permissions)\<close>, the form with three arguments (the form with
  one argument goes through \<^verbatim>\<open>_allowEx\<close> and comes back here once per entry).
\<close>

definition allow :: "options \<Rightarrow> store \<Rightarrow> arg \<Rightarrow> arg \<Rightarrow> arg \<Rightarrow> store" where
  "allow opts s roles resources permissions =
     (let roles = makeArray roles;
          resources = makeArray resources;
          transaction = backend_begin;
          transaction = backend_add transaction (meta_bucket opts) (Str ''roles'') (Many roles);
          transaction =
            foldl (\<lambda>t resource.
                foldl (\<lambda>t role. backend_add t (allowsBucket resource) role permissions) t roles)
              transaction resources;
          transaction =
            foldl (\<lambda>t role. backend_add t (resources_bucket opts) role (Many resources))
              transaction roles
      in backend_end transaction s)"

text \<open>
  \<^verbatim>\<open>removePermissions(role, resources, permissions)\<close>: the first batch revokes, the
  second batch, built from reads of the store after the first, drops the resources on which
  the role has nothing left.
\<close>

definition removePermissions :: "options \<Rightarrow> store \<Rightarrow> js_value \<Rightarrow> js_value list \<Rightarrow> arg \<Rightarrow> store" where
  "removePermissions opts s role resources permissions =
     (let transaction = backend_begin;
          transaction =
            foldl (\<lambda>t resource.
                let bucket = allowsBucket resource in
                if truthy_arg permissions then backend_remove t bucket role permissions
                else backend_remove (backend_del t bucket (One role))
                       (resources_bucket opts) role (One resource))
              transaction resources;
          s1 = backend_end transaction s;
          transaction2 = backend_begin;
          transaction2 =
            foldl (\<lambda>t resource.
                let bucket = allowsBucket resource in
                if length (fst (backend_get s1 bucket role)) = 0
                then backend_remove t (resources_bucket opts) role (One resource)
                else t)
              transaction2 resources
      in backend_end transaction2 s1)"

definition removeAllow :: "options \<Rightarrow> store \<Rightarrow> js_value \<Rightarrow> arg \<Rightarrow> arg \<Rightarrow> store" where
  "removeAllow opts s role resources permissions =
     (let resources = makeArray resources
      in removePermissions opts s role resources permissions)"

section \<open>Queries\<close>

text \<open>
  A query returns its value together with the backend reads it issued, in order. The
  recursive queries follow the parent edges with no guard against cycles: they are partial
  functions, \<open>None\<close> standing for a recursion that never returns.
\<close>

definition userRoles :: "options \<Rightarrow> store \<Rightarrow> js_value \<Rightarrow> js_value list \<times> read list" where
  "userRoles opts s userId = backend_get s (users_bucket opts) userId"

definition hasRole :: "options \<Rightarrow> store \<Rightarrow> js_value \<Rightarrow> js_value \<Rightarrow> bool \<times> read list" where
  "hasRole opts s userId rolename =
     (case userRoles opts s userId of (roles, l) \<Rightarrow> (rolename \<in> set roles, l))"

definition rolesParents :: "options \<Rightarrow> store \<Rightarrow> js_value list \<Rightarrow> js_value list \<times> read list" where
  "rolesParents opts s roles = backend_union s (parents_bucket opts) roles"

partial_function (option) allRoles ::
  "options \<Rightarrow> store \<Rightarrow> js_value list \<Rightarrow> (js_value list \<times> read list) option" where
  "allRoles opts s roleNames =
     (case rolesParents opts s roleNames of (parents, l1) \<Rightarrow>
        if length parents > 0
        then Option.bind (allRoles opts s parents)
               (\<lambda>(parentRoles, l2). Some (lodash_union roleNames parentRoles, l1 @ l2))
        else Some (roleNames, l1))"

definition allUserRoles ::
  "options \<Rightarrow> store \<Rightarrow> js_value \<Rightarrow> (js_value list \<times> read list) option" where
  "allUserRoles opts s userId =
     (case userRoles opts s userId of (roles, l1) \<Rightarrow>
        if length roles > 0
        then map_option (\<lambda>(allRoles, l2). (allRoles, l1 @ l2)) (allRoles opts s roles)
        else Some ([], l1))"

partial_function (option) resourcePermissions ::
  "options \<Rightarrow> store \<Rightarrow> js_value list \<Rightarrow> js_value \<Rightarrow> (js_value list \<times> read list) option" where
  "resourcePermissions opts s roles resource =
     (if length roles = 0 then Some ([], [])
      else
        case backend_union s (allowsBucket resource) roles of (resourcePerms, l1) \<Rightarrow>
        case rolesParents opts s roles of (parents, l2) \<Rightarrow>
          if length parents \<noteq> 0
          then Option.bind (resourcePermissions opts s parents resource)
                 (\<lambda>(morePermissions, l3).
                     Some (lodash_union resourcePerms morePermissions, l1 @ l2 @ l3))
          else Some (resourcePerms, l1 @ l2))"

partial_function (option) checkPermissions ::
  "options \<Rightarrow> store \<Rightarrow> js_value list \<Rightarrow> js_value \<Rightarrow> js_value list \<Rightarrow> (bool \<times> read list) option" where
  "checkPermissions opts s roles resource permissions =
     (case backend_union s (allowsBucket resource) roles of (resourcePerms, l1) \<Rightarrow>
        if Str ''*'' \<in> set resourcePerms then Some (True, l1)
        else
          let permissions = filter (\<lambda>p. p \<notin> set resourcePerms) permissions in
          if length permissions = 0 then Some (True, l1)
          else
            case backend_union s (parents_bucket opts) roles of (parents, l2) \<Rightarrow>
              if length parents \<noteq> 0
              then Option.bind (checkPermissions opts s parents resource permissions)
                     (\<lambda>(allowed, l3). Some (allowed, l1 @ l2 @ l3))
              else Some (False, l1 @ l2))"

definition areAnyRolesAllowed ::
  "options \<Rightarrow> store \<Rightarrow> arg \<Rightarrow> js_value \<Rightarrow> arg \<Rightarrow> (bool \<times> read list) option" where
  "areAnyRolesAllowed opts s roles resource permissions =
     (let roles = makeArray roles;
          permissions = makeArray permissions
      in if length roles = 0 then Some (False, [])
         else checkPermissions opts s roles resource permissions)"

definition isAllowed ::
  "options \<Rightarrow> store \<Rightarrow> js_value \<Rightarrow> js_value \<Rightarrow> arg \<Rightarrow> (bool \<times> read list) option" where
  "isAllowed opts s userId resource permissions =
     (case backend_get s (users_bucket opts) userId of (roles, l1) \<Rightarrow>
        if length roles \<noteq> 0
        then map_option (\<lambda>(allowed, l2). (allowed, l1 @ l2))
               (areAnyRolesAllowed opts s (Many roles) resource permissions)
        else Some (False, l1))"

text \<open>
  The bulk queries. Their guard calls \<^verbatim>\<open>cb\<close>, an identifier that is declared nowhere:
  evaluating it raises a \<^verbatim>\<open>ReferenceError\<close>. A result object is an association list
  from (string) keys to arrays.
\<close>

datatype error = ReferenceError string

type_synonym obj = "(string \<times> js_value list) list"

definition optimizedAllowedPermissions ::
  "options \<Rightarrow> store \<Rightarrow> js_value \<Rightarrow> arg \<Rightarrow> ((error + obj) \<times> read list) option" where
  "optimizedAllowedPermissions opts s userId resources =
     (if \<not> truthy userId then Some (Inl (ReferenceError ''cb''), [])
      else
        let resources = makeArray resources in
        case allUserRoles opts s userId of
          None \<Rightarrow> None
        | Some (roles, l1) \<Rightarrow>
            let buckets = map allowsBucket resources;
                (response, l2) =
                  (if length roles = 0
                   then (foldl (\<lambda>emptyResult bucket. AList.update bucket [] emptyResult) [] buckets,
                         [])
                   else backend_unions s buckets roles);
                result =
                  foldl (\<lambda>result (bucket, perms). AList.update (keyFromAllowsBucket bucket) perms result)
                    [] response
            in Some (Inr result, l1 @ l2))"

text \<open>
  \<^verbatim>\<open>allowedPermissions\<close>; \<open>has_unions\<close> says whether the backend has the bulk
  \<^verbatim>\<open>unions\<close> call (\<^verbatim>\<open>if (this.backend.unions)\<close>).
\<close>

definition allowedPermissions ::
  "options \<Rightarrow> bool \<Rightarrow> store \<Rightarrow> js_value \<Rightarrow> arg \<Rightarrow> ((error + obj) \<times> read list) option" where
  "allowedPermissions opts has_unions s userId resources =
     (if \<not> truthy userId then Some (Inl (ReferenceError ''cb''), [])
      else if has_unions then optimizedAllowedPermissions opts s userId resources
      else
        let resources = makeArray resources in
        case userRoles opts s userId of (roles, l1) \<Rightarrow>
          map_option (\<lambda>(result, l). (Inr result, l))
            (foldl (\<lambda>acc resource.
                case acc of
                  None \<Rightarrow> None
                | Some (result, l) \<Rightarrow>
                    (case resourcePermissions opts s roles resource of
                       None \<Rightarrow> None
                     | Some (permissions, l2) \<Rightarrow>
                         Some (AList.update (toString resource) permissions result, l @ l2)))
              (Some ([], l1)) resources))"

declare allRoles.simps [code]
declare resourcePermissions.simps [code]
declare checkPermissions.simps [code]

section \<open>Notions the properties are stated with\<close>

text \<open>
  Bucket names are well separated when the five names the engine uses are distinct and
  none of them can be mistaken for a permissions bucket \<^verbatim>\<open>allows_...\<close>. The defaults are.
\<close>

definition valid_options :: "options \<Rightarrow> bool" where
  "valid_options opts =
     (distinct [meta_bucket opts, parents_bucket opts, resources_bucket opts,
                roles_bucket opts, users_bucket opts]
      \<and> \<not> prefix ''allows_'' (meta_bucket opts)
      \<and> \<not> prefix ''allows_'' (parents_bucket opts)
      \<and> \<not> prefix ''allows_'' (resources_bucket opts)
      \<and> \<not> prefix ''allows_'' (roles_bucket opts)
      \<and> \<not> prefix ''allows_'' (users_bucket opts))"

text \<open>The permissions granted directly to some role of a role set on a resource.\<close>

definition granted :: "store \<Rightarrow> js_value \<Rightarrow> js_value list \<Rightarrow> js_value set" where
  "granted s resource roles = (\<Union>role \<in> set roles. set (s (allowsBucket resource) role))"

text \<open>The role hierarchy: an edge leads from a role to each of its parents.\<close>

definition parent_edges :: "options \<Rightarrow> store \<Rightarrow> (js_value \<times> js_value) set" where
  "parent_edges opts s = {(role, parent). parent \<in> set (s (parents_bucket opts) role)}"

text \<open>The roles of a role set together with all their ancestors.\<close>

definition ancestors :: "options \<Rightarrow> store \<Rightarrow> js_value list \<Rightarrow> js_value set" where
  "ancestors opts s roles = (parent_edges opts s)\<^sup>* `` set roles"

text \<open>
  The \<open>n\<close>-th level above a role set: the role set itself, its parents, their parents, and
  so on, as the recursive queries fetch them.
\<close>

fun level :: "options \<Rightarrow> store \<Rightarrow> js_value list \<Rightarrow> nat \<Rightarrow> js_value list" where
  "level opts s roles 0 = roles"
| "level opts s roles (Suc n) = level opts s (fst (rolesParents opts s roles)) n"

text \<open>
  A required permission is covered by a role set when the role set or one of its ancestors
  is granted the permission itself or the wildcard on the resource.
\<close>

definition covered :: "options \<Rightarrow> store \<Rightarrow> js_value list \<Rightarrow> js_value \<Rightarrow> js_value \<Rightarrow> bool" where
  "covered opts s roles resource p =
     (\<exists>role. role \<in> ancestors opts s roles
        \<and> (p \<in> set (s (allowsBucket resource) role)
           \<or> Str ''*'' \<in> set (s (allowsBucket resource) role)))"

text \<open>
  The permissions a role set holds in a bucket, its own and those of its ancestors.
\<close>

definition permitted :: "options \<Rightarrow> store \<Rightarrow> js_value list \<Rightarrow> string \<Rightarrow> js_value set" where
  "permitted opts s roles bucket = (\<Union>role \<in> ancestors opts s roles. set (s bucket role))"

text \<open>
  Two outcomes of a bulk query are the same mapping when they raise the same error, or are
  objects with the same keys and, under every key, the same set of permissions.
\<close>

fun same_mapping :: "error + obj \<Rightarrow> error + obj \<Rightarrow> bool" where
  "same_mapping (Inr a) (Inr b) =
     (\<forall>key. map_option set (map_of a key) = map_option set (map_of b key))"
| "same_mapping (Inl e) (Inl e') = (e = e')"
| "same_mapping (Inl e) (Inr b) = False"
| "same_mapping (Inr a) (Inl e') = False"

subsection \<open>Example stores\<close>

text \<open>
  User \<open>u1\<close> holds role \<open>A\<close>, whose parent \<open>B\<close> is granted \<open>read\<close> on \<open>doc\<close>.
\<close>

definition inherit_store :: store where
  "inherit_store =
     allow default_options
       (addRoleParents default_options
          (addUserRoles default_options empty_store (Str ''u1'') (One (Str ''A'')))
          (Str ''A'') (One (Str ''B'')))
       (One (Str ''B'')) (One (Str ''doc'')) (One (Str ''read''))"

text \<open>The same, with two more parents \<open>C\<close> and \<open>D\<close> of role \<open>A\<close>.\<close>

definition parents_store :: store where
  "parents_store =
     addRoleParents default_options inherit_store (Str ''A'') (Many [Str ''C'', Str ''D''])"

text \<open>The first store again, with the empty name and \<open>C\<close> as further parents of \<open>A\<close>.\<close>

definition empty_name_store :: store where
  "empty_name_store =
     addRoleParents default_options inherit_store (Str ''A'') (Many [Str '''', Str ''C''])"

text \<open>Role \<open>admin\<close> is granted the wildcard on \<open>doc\<close>.\<close>

definition wildcard_store :: store where
  "wildcard_store =
     allow default_options empty_store (One (Str ''admin'')) (One (Str ''doc'')) (One (Str ''*''))"

text \<open>
  The spec's example: \<open>admin\<close> is granted \<open>get\<close>, \<open>put\<close> and \<open>delete\<close> on \<open>blogs\<close>, and
  user \<open>u1\<close> holds \<open>admin\<close>.
\<close>

definition blog_store :: store where
  "blog_store =
     addUserRoles default_options
       (allow default_options empty_store (One (Str ''admin'')) (One (Str ''blogs''))
          (Many [Str ''get'', Str ''put'', Str ''delete'']))
       (Str ''u1'') (One (Str ''admin''))"

subsection \<open>Batches\<close>

text \<open>Removals and deletions only take values away; each mutation touches certain entries.\<close>

fun is_removal :: "op \<Rightarrow> bool" where
  "is_removal (Add bucket key vals) = False"
| "is_removal (Remove bucket key vals) = True"
| "is_removal (Del bucket keys) = True"

fun touches :: "op \<Rightarrow> (string \<times> js_value) set" where
  "touches (Add bucket key vals) = {(bucket, key)}"
| "touches (Remove bucket key vals) = {(bucket, key)}"
| "touches (Del bucket keys) = {bucket} \<times> set (makeArray keys)"

text \<open>The two batches \<open>removePermissions\<close> queues, the second from the store after the first.\<close>

definition revoke_batch :: "js_value \<Rightarrow> js_value list \<Rightarrow> arg \<Rightarrow> options \<Rightarrow> transaction" where
  "revoke_batch role resources permissions opts =
     concat (map (\<lambda>resource.
         if truthy_arg permissions then [Remove (allowsBucket resource) role permissions]
         else [Del (allowsBucket resource) (One role),
               Remove (resources_bucket opts) role (One resource)]) resources)"

definition cleanup_batch :: "store \<Rightarrow> js_value \<Rightarrow> js_value list \<Rightarrow> options \<Rightarrow> transaction" where
  "cleanup_batch s1 role resources opts =
     concat (map (\<lambda>resource.
         if s1 (allowsBucket resource) role = []
         then [Remove (resources_bucket opts) role (One resource)] else []) resources)"

text \<open>Granting one permission to a role on a resource and revoking it again.\<close>

abbreviation allow_then_removeAllow ::
  "options \<Rightarrow> store \<Rightarrow> js_value \<Rightarrow> js_value \<Rightarrow> js_value \<Rightarrow> store" where
  "allow_then_removeAllow opts s role resource permission \<equiv>
     removeAllow opts (allow opts s (One role) (One resource) (One permission))
       role (One resource) (One permission)"

section \<open>Evaluating the example stores\<close>

lemmas example_defs =
  allow_def addRoleParents_def addUserRoles_def backend_end_def backend_begin_def
  backend_add_def allowsBucket_def default_options_def empty_store_def Let_def
  List.union_def List.insert_def

section \<open>The wildcard\<close>

text \<open>
  Claim C2. When the permissions granted to the role set of the current level on the
  resource contain the wildcard, the allow check returns true for any required permissions,
  and the only read it issues is the union over the permissions bucket of the resource: the
  parents are not consulted.
\<close>

theorem wildcard_short_circuit:
  assumes "Str ''*'' \<in> granted s resource roles"
  shows "checkPermissions opts s roles resource permissions
           = Some (True, [Union (allowsBucket resource) roles])"
  using assms
  by (subst checkPermissions.simps) (simp add: granted_def backend_union_def)

theorem wildcard_short_circuit_witness:
  "Str ''*'' \<in> granted wildcard_store (Str ''doc'') [Str ''admin'']
   \<and> checkPermissions default_options wildcard_store [Str ''admin''] (Str ''doc'')
         [Str ''delete'', Str ''publish'']
       = Some (True, [Union ''allows_doc'' [Str ''admin'']])"
proof -
  have wild: "Str ''*'' \<in> granted wildcard_store (Str ''doc'') [Str ''admin'']"
    by (simp add: granted_def wildcard_store_def example_defs)
  show ?thesis
    using wild
      wildcard_short_circuit [OF wild, of default_options "[Str ''delete'', Str ''publish'']"]
    by (simp add: allowsBucket_def)
qed

section \<open>Users without roles\<close>

text \<open>
  Claim C7. For a user whose role set \<open>users[userId]\<close> is empty, \<open>isAllowed\<close> returns false,
  whatever the resource and the permissions, and the only read it issues is the one of the
  user's roles: no permissions bucket is read.
\<close>

theorem isAllowed_no_roles:
  assumes "s (users_bucket opts) userId = []"
  shows "isAllowed opts s userId resource permissions
           = Some (False, [Get (users_bucket opts) userId])"
  using assms by (simp add: isAllowed_def backend_get_def)

theorem isAllowed_no_roles_witness:
  "wildcard_store (users_bucket default_options) (Str ''u2'') = []
   \<and> isAllowed default_options wildcard_store (Str ''u2'') (Str ''doc'') (One (Str ''read''))
       = Some (False, [Get ''users'' (Str ''u2'')])"
proof -
  have none: "wildcard_store (users_bucket default_options) (Str ''u2'') = []"
    by (simp add: wildcard_store_def example_defs)
  show ?thesis
    using none
      isAllowed_no_roles [of wildcard_store default_options "Str ''u2''", OF none,
        of "Str ''doc''" "One (Str ''read'')"]
    by (simp add: default_options_def)
qed

section \<open>Parents of a role\<close>

text \<open>
  Claim C8, as worded, says that \<open>removeRoleParents\<close> called with specified parents removes
  exactly those. The guard of the source is \<^verbatim>\<open>if (parents)\<close>: a parent that is specified
  but falsy, such as the empty name, takes the branch of the absent argument. Role \<open>A\<close> has
  the parents \<open>B\<close>, the empty name and \<open>C\<close>; removing the empty name leaves no parent at
  all, where removing exactly that one would leave \<open>B\<close> and \<open>C\<close>.
\<close>

theorem removeRoleParents_empty_name_counterexample:
  "set (empty_name_store (parents_bucket default_options) (Str ''A''))
       = {Str ''B'', Str '''', Str ''C''}
   \<and> removeRoleParents default_options empty_name_store (Str ''A'') (One (Str ''''))
         (parents_bucket default_options) (Str ''A'') = []
   \<and> set (removeRoleParents default_options empty_name_store (Str ''A'') (One (Str ''''))
            (parents_bucket default_options) (Str ''A''))
       \<noteq> set (empty_name_store (parents_bucket default_options) (Str ''A''))
           - set (makeArray (One (Str '''')))"
proof -
  have before: "set (empty_name_store (parents_bucket default_options) (Str ''A''))
                  = {Str ''B'', Str '''', Str ''C''}"
    by (auto simp: empty_name_store_def inherit_store_def example_defs)
  have after: "removeRoleParents default_options empty_name_store (Str ''A'') (One (Str ''''))
         (parents_bucket default_options) (Str ''A'') = []"
    by (simp add: removeRoleParents_def backend_end_def backend_begin_def backend_del_def)
  have "Str ''B'' \<in> set (empty_name_store (parents_bucket default_options) (Str ''A''))
           - set (makeArray (One (Str '''')))"
    unfolding before by simp
  then have "set (removeRoleParents default_options empty_name_store (Str ''A'') (One (Str ''''))
            (parents_bucket default_options) (Str ''A''))
       \<noteq> set (empty_name_store (parents_bucket default_options) (Str ''A''))
           - set (makeArray (One (Str '''')))"
    unfolding after by auto
  with before after show ?thesis by blast
qed

text \<open>
  Claim C8, amended. \<open>removeRoleParents\<close> called without parents, or with a falsy one (the
  empty name, 0, \<^verbatim>\<open>null\<close>), empties \<open>parents[role]\<close>, however many parents the role had;
  called with a truthy one (a non-empty name, a non-zero number or an array of names) it
  removes exactly these from \<open>parents[role]\<close>; in every case nothing else in the store
  changes.
\<close>

theorem removeRoleParents_clears_or_removes:
  "removeRoleParents opts s role (One Undefined) (parents_bucket opts) role = []
   \<and> (\<not> truthy_arg parents \<longrightarrow>
        removeRoleParents opts s role parents (parents_bucket opts) role = [])
   \<and> (truthy_arg parents \<longrightarrow>
        set (removeRoleParents opts s role parents (parents_bucket opts) role)
          = set (s (parents_bucket opts) role) - set (makeArray parents))
   \<and> ((bucket, key) \<noteq> (parents_bucket opts, role) \<longrightarrow>
        removeRoleParents opts s role parents bucket key = s bucket key)"
  by (auto simp: removeRoleParents_def backend_end_def backend_begin_def backend_remove_def
      backend_del_def)

theorem removeRoleParents_clears_or_removes_witness:
  "set (parents_store (parents_bucket default_options) (Str ''A''))
       = {Str ''B'', Str ''C'', Str ''D''}
   \<and> removeRoleParents default_options parents_store (Str ''A'') (One Undefined)
         (parents_bucket default_options) (Str ''A'') = []
   \<and> \<not> truthy_arg (One (Num 0))
   \<and> removeRoleParents default_options parents_store (Str ''A'') (One (Num 0))
         (parents_bucket default_options) (Str ''A'') = []
   \<and> truthy_arg (Many [Str ''B'', Str ''D''])
   \<and> set (removeRoleParents default_options parents_store (Str ''A'')
            (Many [Str ''B'', Str ''D'']) (parents_bucket default_options) (Str ''A''))
       = {Str ''C''}
   \<and> (''users'', Str ''u1'') \<noteq> (parents_bucket default_options, Str ''A'')
   \<and> removeRoleParents default_options parents_store (Str ''A'') (Many [Str ''B'', Str ''D''])
         ''users'' (Str ''u1'')
       = parents_store ''users'' (Str ''u1'')"
proof -
  have before: "set (parents_store (parents_bucket default_options) (Str ''A''))
                  = {Str ''B'', Str ''C'', Str ''D''}"
    by (simp add: parents_store_def inherit_store_def example_defs)
  show ?thesis
    using before
      removeRoleParents_clears_or_removes [of default_options parents_store "Str ''A''"
        "Many [Str ''B'', Str ''D'']" "''users''" "Str ''u1''"]
      removeRoleParents_clears_or_removes [of default_options parents_store "Str ''A''"
        "One (Num 0)" "''users''" "Str ''u1''"]
    by (auto simp: default_options_def)
qed

section \<open>Direct roles\<close>

text \<open>
  Claim C9. \<open>hasRole\<close> returns true exactly when the role is in the user's directly
  assigned role set \<open>users[userId]\<close>, which is all it reads. Roles reached through parent
  edges do not count: in the example store user \<open>u1\<close> is allowed \<open>read\<close> on \<open>doc\<close> through
  role \<open>B\<close>, the parent of its role \<open>A\<close>, and \<open>hasRole\<close> is false for \<open>B\<close>.
\<close>

theorem hasRole_direct_only:
  "hasRole opts s userId rolename
     = (rolename \<in> set (s (users_bucket opts) userId), [Get (users_bucket opts) userId])
   \<and> fst (hasRole default_options inherit_store (Str ''u1'') (Str ''B'')) = False
   \<and> fst (hasRole default_options inherit_store (Str ''u1'') (Str ''A'')) = True
   \<and> (Str ''A'', Str ''B'') \<in> parent_edges default_options inherit_store
   \<and> map_option fst
        (isAllowed default_options inherit_store (Str ''u1'') (Str ''doc'') (One (Str ''read'')))
       = Some True"
proof -
  have "hasRole opts s userId rolename
     = (rolename \<in> set (s (users_bucket opts) userId), [Get (users_bucket opts) userId])"
    by (simp add: hasRole_def userRoles_def backend_get_def)
  moreover have "fst (hasRole default_options inherit_store (Str ''u1'') (Str ''B'')) = False"
    by code_simp
  moreover have "fst (hasRole default_options inherit_store (Str ''u1'') (Str ''A'')) = True"
    by code_simp
  moreover have "(Str ''A'', Str ''B'') \<in> parent_edges default_options inherit_store"
    by (simp add: parent_edges_def inherit_store_def example_defs)
  moreover have "map_option fst
        (isAllowed default_options inherit_store (Str ''u1'') (Str ''doc'') (One (Str ''read'')))
       = Some True"
    by code_simp
  ultimately show ?thesis by simp
qed

section \<open>Falsy user ids\<close>

text \<open>
  Claim C10. For a falsy user id (the empty string, 0, \<^verbatim>\<open>null\<close> or \<^verbatim>\<open>undefined\<close>),
  \<open>allowedPermissions\<close> and \<open>optimizedAllowedPermissions\<close> raise the reference error of the
  undeclared \<^verbatim>\<open>cb\<close>, whatever the resources, and issue no read of the backend.
\<close>

theorem falsy_user_raises:
  assumes "\<not> truthy userId"
  shows "userId \<in> {Str '''', Num 0, Null, Undefined}
    \<and> allowedPermissions opts has_unions s userId resources
        = Some (Inl (ReferenceError ''cb''), [])
    \<and> optimizedAllowedPermissions opts s userId resources
        = Some (Inl (ReferenceError ''cb''), [])"
  using assms
  by (cases userId) (simp_all add: allowedPermissions_def optimizedAllowedPermissions_def)

theorem falsy_user_raises_witness:
  "\<not> truthy (Num 0)
   \<and> allowedPermissions default_options False inherit_store (Num 0) (One (Str ''doc''))
       = Some (Inl (ReferenceError ''cb''), [])
   \<and> optimizedAllowedPermissions default_options inherit_store (Num 0) (One (Str ''doc''))
       = Some (Inl (ReferenceError ''cb''), [])"
proof -
  have falsy: "\<not> truthy (Num 0)" by simp
  show ?thesis
    using falsy
      falsy_user_raises [OF falsy, of default_options False inherit_store "One (Str ''doc'')"]
    by simp
qed

section \<open>Batches of mutations\<close>

lemma apply_op_frame: "(b, k) \<notin> touches x \<Longrightarrow> apply_op s x b k = s b k"
  by (cases x) auto

lemma apply_op_shrink: "is_removal x \<Longrightarrow> set (apply_op s x b k) \<subseteq> set (s b k)"
  by (cases x) auto

lemma foldl_apply_op_frame:
  "\<forall>x \<in> set t. (b, k) \<notin> touches x \<Longrightarrow> foldl apply_op s t b k = s b k"
  by (induction t arbitrary: s) (simp_all add: apply_op_frame)

lemma foldl_apply_op_shrink:
  "\<forall>x \<in> set t. is_removal x \<Longrightarrow> set (foldl apply_op s t b k) \<subseteq> set (s b k)"
proof (induction t arbitrary: s)
  case Nil
  then show ?case by simp
next
  case (Cons x t)
  have "set (foldl apply_op (apply_op s x) t b k) \<subseteq> set (apply_op s x b k)"
    using Cons by simp
  also have "\<dots> \<subseteq> set (s b k)"
    using Cons.prems by (simp add: apply_op_shrink)
  finally show ?case by simp
qed

lemma foldl_apply_op_del:
  assumes "Del b keys \<in> set t" and "k \<in> set (makeArray keys)" and "\<forall>x \<in> set t. is_removal x"
  shows "foldl apply_op s t b k = []"
  using assms
proof (induction t arbitrary: s)
  case Nil
  then show ?case by simp
next
  case (Cons x t)
  show ?case
  proof (cases "x = Del b keys")
    case True
    have "set (foldl apply_op (apply_op s x) t b k) \<subseteq> set (apply_op s x b k)"
      using Cons.prems by (intro foldl_apply_op_shrink) simp
    then show ?thesis using True Cons.prems(2) by simp
  next
    case False
    then show ?thesis using Cons by simp
  qed
qed

lemma foldl_apply_op_remove:
  assumes "Remove b k vals \<in> set t" and "\<forall>x \<in> set t. is_removal x"
  shows "set (foldl apply_op s t b k) \<subseteq> set (s b k) - set (makeArray vals)"
  using assms
proof (induction t arbitrary: s)
  case Nil
  then show ?case by simp
next
  case (Cons x t)
  show ?case
  proof (cases "x = Remove b k vals")
    case True
    have "set (foldl apply_op (apply_op s x) t b k) \<subseteq> set (apply_op s x b k)"
      using Cons.prems by (intro foldl_apply_op_shrink) simp
    then show ?thesis using True by auto
  next
    case False
    then have "set (foldl apply_op (apply_op s x) t b k) \<subseteq> set (apply_op s x b k) - set (makeArray vals)"
      using Cons by simp
    moreover have "set (apply_op s x b k) \<subseteq> set (s b k)"
      using Cons.prems by (simp add: apply_op_shrink)
    ultimately show ?thesis by auto
  qed
qed

lemma allowsBucket_prefix: "prefix ''allows_'' (allowsBucket resource)"
  by (simp add: allowsBucket_def)

lemma foldl_snoc_map: "foldl (\<lambda>t x. t @ [f x]) t0 xs = t0 @ map f xs"
  by (induction xs arbitrary: t0) simp_all

lemma removeRole_transaction:
  "removeRole opts s role =
     foldl apply_op s
       (map (\<lambda>resource. Del (allowsBucket resource) (One role)) (s (resources_bucket opts) role)
        @ [Del (resources_bucket opts) (One role), Del (parents_bucket opts) (One role),
           Del (roles_bucket opts) (One role),
           Remove (meta_bucket opts) (Str ''roles'') (One role)])"
  by (simp only: removeRole_def backend_get_def backend_begin_def backend_del_def
      backend_remove_def backend_end_def foldl_snoc_map Let_def fst_conv append_Nil
      append_assoc append_Cons)

section \<open>Removing a role\<close>

text \<open>
  Claim C3. \<open>removeRole\<close> empties \<open>allows[resource][role]\<close> for every resource recorded
  in \<open>resources[role]\<close>, empties \<open>resources[role]\<close>, \<open>parents[role]\<close> and the reverse
  mapping \<open>roles[role]\<close>, takes the role out of \<open>meta.roles\<close>, and leaves \<open>users[userId]\<close>
  of every user as it was: a user who held the role still lists it.
\<close>

theorem removeRole_effect:
  assumes "valid_options opts"
  shows "(\<forall>resource \<in> set (s (resources_bucket opts) role).
            removeRole opts s role (allowsBucket resource) role = [])
    \<and> removeRole opts s role (resources_bucket opts) role = []
    \<and> removeRole opts s role (parents_bucket opts) role = []
    \<and> role \<notin> set (removeRole opts s role (meta_bucket opts) (Str ''roles''))
    \<and> removeRole opts s role (roles_bucket opts) role = []
    \<and> (\<forall>userId. removeRole opts s role (users_bucket opts) userId = s (users_bucket opts) userId)"
proof -
  let ?t = "map (\<lambda>resource. Del (allowsBucket resource) (One role)) (s (resources_bucket opts) role)
        @ [Del (resources_bucket opts) (One role), Del (parents_bucket opts) (One role),
           Del (roles_bucket opts) (One role),
           Remove (meta_bucket opts) (Str ''roles'') (One role)]"
  have rem: "\<forall>x \<in> set ?t. is_removal x" by auto
  have a: "\<forall>resource \<in> set (s (resources_bucket opts) role).
            removeRole opts s role (allowsBucket resource) role = []"
    unfolding removeRole_transaction
    by (intro ballI foldl_apply_op_del [where keys = "One role"] rem) auto
  have b: "removeRole opts s role (resources_bucket opts) role = []"
    unfolding removeRole_transaction
    by (intro foldl_apply_op_del [where keys = "One role"] rem) auto
  have c: "removeRole opts s role (parents_bucket opts) role = []"
    unfolding removeRole_transaction
    by (intro foldl_apply_op_del [where keys = "One role"] rem) auto
  have d: "removeRole opts s role (roles_bucket opts) role = []"
    unfolding removeRole_transaction
    by (intro foldl_apply_op_del [where keys = "One role"] rem) auto
  have "set (removeRole opts s role (meta_bucket opts) (Str ''roles''))
          \<subseteq> set (s (meta_bucket opts) (Str ''roles'')) - set (makeArray (One role))"
    unfolding removeRole_transaction
    by (intro foldl_apply_op_remove rem) auto
  then have e: "role \<notin> set (removeRole opts s role (meta_bucket opts) (Str ''roles''))"
    by auto
  have "\<forall>x \<in> set ?t. (users_bucket opts, userId) \<notin> touches x" for userId
    using assms allowsBucket_prefix by (auto simp: valid_options_def)
  then have f: "\<forall>userId. removeRole opts s role (users_bucket opts) userId = s (users_bucket opts) userId"
    unfolding removeRole_transaction by (intro allI foldl_apply_op_frame)
  from a b c d e f show ?thesis by blast
qed

theorem removeRole_effect_witness:
  "valid_options default_options
   \<and> Str ''blogs'' \<in> set (blog_store ''resources'' (Str ''admin''))
   \<and> removeRole default_options blog_store (Str ''admin'') ''allows_blogs'' (Str ''admin'') = []
   \<and> removeRole default_options blog_store (Str ''admin'') ''resources'' (Str ''admin'') = []
   \<and> Str ''admin'' \<notin> set (removeRole default_options blog_store (Str ''admin'') ''meta''
                               (Str ''roles''))
   \<and> removeRole default_options blog_store (Str ''admin'') ''users'' (Str ''u1'')
       = [Str ''admin'']"
proof -
  have valid: "valid_options default_options"
    by (simp add: valid_options_def default_options_def)
  have res: "blog_store ''resources'' (Str ''admin'') = [Str ''blogs'']"
    by (simp add: blog_store_def example_defs)
  have usr: "blog_store ''users'' (Str ''u1'') = [Str ''admin'']"
    by (simp add: blog_store_def example_defs)
  show ?thesis
    using valid res usr removeRole_effect [OF valid, of blog_store "Str ''admin''"]
    by (simp add: default_options_def allowsBucket_def)
qed

section \<open>Revoking permissions\<close>

lemma revoke_batch_foldl:
  "foldl (\<lambda>t resource.
      if truthy_arg permissions then backend_remove t (allowsBucket resource) role permissions
      else backend_remove (backend_del t (allowsBucket resource) (One role))
             (resources_bucket opts) role (One resource)) t0 resources
   = t0 @ revoke_batch role resources permissions opts"
  by (induction resources arbitrary: t0)
    (simp_all add: revoke_batch_def backend_remove_def backend_del_def Let_def)

lemma cleanup_batch_foldl:
  "foldl (\<lambda>t resource.
      if length (fst (backend_get s1 (allowsBucket resource) role)) = 0
      then backend_remove t (resources_bucket opts) role (One resource)
      else t) t0 resources
   = t0 @ cleanup_batch s1 role resources opts"
  by (induction resources arbitrary: t0)
    (simp_all add: cleanup_batch_def backend_remove_def backend_get_def Let_def)

lemma removePermissions_batches:
  "removePermissions opts s role resources permissions =
     foldl apply_op (foldl apply_op s (revoke_batch role resources permissions opts))
       (cleanup_batch (foldl apply_op s (revoke_batch role resources permissions opts))
          role resources opts)"
  by (simp only: removePermissions_def revoke_batch_foldl cleanup_batch_foldl backend_begin_def
      backend_end_def Let_def append_Nil)

lemma revoke_batch_removal: "\<forall>x \<in> set (revoke_batch role resources permissions opts). is_removal x"
  by (auto simp: revoke_batch_def)

lemma cleanup_batch_removal: "\<forall>x \<in> set (cleanup_batch s1 role resources opts). is_removal x"
  by (auto simp: cleanup_batch_def)

lemma revoke_batch_revokes:
  assumes "resource \<in> set resources"
  shows "set (foldl apply_op s (revoke_batch role resources permissions opts)
                (allowsBucket resource) role)
           \<subseteq> set (s (allowsBucket resource) role) - set (makeArray permissions)"
proof (cases "truthy_arg permissions")
  case True
  then have "Remove (allowsBucket resource) role permissions
               \<in> set (revoke_batch role resources permissions opts)"
    using assms by (auto simp: revoke_batch_def)
  then show ?thesis
    by (rule foldl_apply_op_remove [OF _ revoke_batch_removal])
next
  case False
  then have "Del (allowsBucket resource) (One role)
               \<in> set (revoke_batch role resources permissions opts)"
    using assms by (auto simp: revoke_batch_def)
  then have "foldl apply_op s (revoke_batch role resources permissions opts)
               (allowsBucket resource) role = []"
    by (rule foldl_apply_op_del [OF _ _ revoke_batch_removal]) simp
  then show ?thesis by simp
qed

lemma revoke_batch_deletes:
  assumes "resource \<in> set resources" and "\<not> truthy_arg permissions"
  shows "foldl apply_op s (revoke_batch role resources permissions opts)
           (allowsBucket resource) role = []"
proof -
  have "Del (allowsBucket resource) (One role)
               \<in> set (revoke_batch role resources permissions opts)"
    using assms by (auto simp: revoke_batch_def)
  then show ?thesis
    by (rule foldl_apply_op_del [OF _ _ revoke_batch_removal]) simp
qed

lemma removePermissions_only_grant:
  assumes "resource \<in> set resources"
    and "\<not> truthy_arg permissions
         \<or> set (s (allowsBucket resource) role) \<subseteq> set (makeArray permissions)"
  shows "removePermissions opts s role resources permissions (allowsBucket resource) role = []"
    and "resource \<notin> set (removePermissions opts s role resources permissions
                             (resources_bucket opts) role)"
proof -
  let ?s1 = "foldl apply_op s (revoke_batch role resources permissions opts)"
  let ?t2 = "cleanup_batch ?s1 role resources opts"
  have empty: "?s1 (allowsBucket resource) role = []"
  proof (cases "truthy_arg permissions")
    case True
    then have "set (?s1 (allowsBucket resource) role) \<subseteq> {}"
      using revoke_batch_revokes [OF assms(1), of s role permissions opts] assms(2) by blast
    then show ?thesis by simp
  next
    case False
    then show ?thesis by (rule revoke_batch_deletes [OF assms(1)])
  qed
  have "set (foldl apply_op ?s1 ?t2 (allowsBucket resource) role)
          \<subseteq> set (?s1 (allowsBucket resource) role)"
    by (rule foldl_apply_op_shrink [OF cleanup_batch_removal])
  then show "removePermissions opts s role resources permissions (allowsBucket resource) role = []"
    unfolding removePermissions_batches using empty by simp
  have "Remove (resources_bucket opts) role (One resource) \<in> set ?t2"
    using assms(1) empty by (auto simp: cleanup_batch_def)
  then have "set (foldl apply_op ?s1 ?t2 (resources_bucket opts) role)
               \<subseteq> set (?s1 (resources_bucket opts) role) - set (makeArray (One resource))"
    by (rule foldl_apply_op_remove [OF _ cleanup_batch_removal])
  then show "resource \<notin> set (removePermissions opts s role resources permissions
                             (resources_bucket opts) role)"
    unfolding removePermissions_batches by auto
qed

lemma removePermissions_revoked:
  assumes "resource \<in> set resources"
  shows "set (removePermissions opts s role resources permissions (allowsBucket resource) role)
           \<inter> set (makeArray permissions) = {}"
proof -
  let ?s1 = "foldl apply_op s (revoke_batch role resources permissions opts)"
  have "set (removePermissions opts s role resources permissions (allowsBucket resource) role)
          \<subseteq> set (?s1 (allowsBucket resource) role)"
    unfolding removePermissions_batches
    by (rule foldl_apply_op_shrink [OF cleanup_batch_removal])
  then show ?thesis
    using revoke_batch_revokes [OF assms, of s role permissions opts] by auto
qed

lemma allow_single_grants:
  assumes "valid_options opts"
  shows "set (allow opts s (One role) (One resource) permissions (allowsBucket resource) role)
           = set (s (allowsBucket resource) role) \<union> set (makeArray permissions)"
proof -
  have "allowsBucket resource \<noteq> meta_bucket opts" "allowsBucket resource \<noteq> resources_bucket opts"
    using assms allowsBucket_prefix [of resource] by (auto simp: valid_options_def)
  then show ?thesis
    by (simp add: allow_def backend_begin_def backend_add_def backend_end_def Let_def)
qed

text \<open>
  Claim C4. After \<open>allow(role, resource, permission)\<close> followed by
  \<open>removeAllow(role, resource, permission)\<close> the set \<open>allows[resource][role]\<close> does not
  contain the permission; and when the role held no other permission on the resource
  before, it holds none at all afterwards, and the resource is gone from
  \<open>resources[role]\<close>.
\<close>

theorem allow_removeAllow_round_trip:
  "permission \<notin> set (allow_then_removeAllow opts s role resource permission
                         (allowsBucket resource) role)
   \<and> (valid_options opts \<and> set (s (allowsBucket resource) role) \<subseteq> {permission} \<longrightarrow>
        allow_then_removeAllow opts s role resource permission (allowsBucket resource) role = []
        \<and> resource \<notin> set (allow_then_removeAllow opts s role resource permission
                              (resources_bucket opts) role))"
proof -
  let ?s0 = "allow opts s (One role) (One resource) (One permission)"
  have "set (removePermissions opts ?s0 role [resource] (One permission)
               (allowsBucket resource) role) \<inter> set (makeArray (One permission)) = {}"
    by (rule removePermissions_revoked) simp
  then have a: "permission \<notin> set (allow_then_removeAllow opts s role resource permission
                         (allowsBucket resource) role)"
    by (simp add: removeAllow_def)
  have b: "allow_then_removeAllow opts s role resource permission (allowsBucket resource) role = []
        \<and> resource \<notin> set (allow_then_removeAllow opts s role resource permission
                              (resources_bucket opts) role)"
    if valid: "valid_options opts" and only: "set (s (allowsBucket resource) role) \<subseteq> {permission}"
  proof -
    have "set (?s0 (allowsBucket resource) role) \<subseteq> set (makeArray (One permission))"
      using only by (simp add: allow_single_grants [OF valid])
    then have "\<not> truthy_arg (One permission)
         \<or> set (?s0 (allowsBucket resource) role) \<subseteq> set (makeArray (One permission))"
      by simp
    from removePermissions_only_grant
           [where s = ?s0 and permissions = "One permission" and resource = resource
              and resources = "[resource]" and role = role and opts = opts, OF _ this]
    show ?thesis by (simp add: removeAllow_def)
  qed
  from a b show ?thesis by blast
qed

theorem allow_removeAllow_round_trip_witness:
  "valid_options default_options
   \<and> set (blog_store (allowsBucket (Str ''news'')) (Str ''admin'')) \<subseteq> {Str ''get''}
   \<and> Str ''get'' \<notin> set (allow_then_removeAllow default_options blog_store (Str ''admin'')
                            (Str ''news'') (Str ''get'') (allowsBucket (Str ''news''))
                            (Str ''admin''))
   \<and> allow_then_removeAllow default_options blog_store (Str ''admin'') (Str ''news'')
         (Str ''get'') (allowsBucket (Str ''news'')) (Str ''admin'') = []
   \<and> Str ''news'' \<notin> set (allow_then_removeAllow default_options blog_store (Str ''admin'')
                             (Str ''news'') (Str ''get'') (resources_bucket default_options)
                             (Str ''admin''))"
proof -
  have valid: "valid_options default_options"
    by (simp add: valid_options_def default_options_def)
  have only: "set (blog_store (allowsBucket (Str ''news'')) (Str ''admin'')) \<subseteq> {Str ''get''}"
    by (simp add: blog_store_def example_defs)
  show ?thesis
    using valid only
      allow_removeAllow_round_trip [of "Str ''get''" default_options blog_store "Str ''admin''"
        "Str ''news''"]
    by simp
qed

text \<open>
  Claim C5. When the permissions a role holds on a resource are all among the revoked ones
  (or the revocation names no permissions and so takes everything), \<open>removePermissions\<close>,
  run without interleaving, leaves \<open>allows[resource][role]\<close> empty after its first batch,
  and its second batch removes the resource from \<open>resources[role]\<close>.
\<close>

theorem removePermissions_drops_resource:
  assumes "resource \<in> set resources"
    and "\<not> truthy_arg permissions
         \<or> set (s (allowsBucket resource) role) \<subseteq> set (makeArray permissions)"
  shows "removePermissions opts s role resources permissions (allowsBucket resource) role = []
    \<and> resource \<notin> set (removePermissions opts s role resources permissions
                          (resources_bucket opts) role)"
  using removePermissions_only_grant
          [where s = s and permissions = permissions and resource = resource, OF assms]
  by simp

theorem removePermissions_drops_resource_witness:
  "Str ''blogs'' \<in> set [Str ''blogs'']
   \<and> set (blog_store (allowsBucket (Str ''blogs'')) (Str ''admin''))
       \<subseteq> set (makeArray (Many [Str ''delete'', Str ''get'', Str ''put'']))
   \<and> Str ''blogs'' \<in> set (blog_store (resources_bucket default_options) (Str ''admin''))
   \<and> removePermissions default_options blog_store (Str ''admin'') [Str ''blogs'']
         (Many [Str ''delete'', Str ''get'', Str ''put'']) (allowsBucket (Str ''blogs''))
         (Str ''admin'') = []
   \<and> Str ''blogs'' \<notin> set (removePermissions default_options blog_store (Str ''admin'')
                              [Str ''blogs''] (Many [Str ''delete'', Str ''get'', Str ''put''])
                              (resources_bucket default_options) (Str ''admin''))"
proof -
  have mem: "Str ''blogs'' \<in> set [Str ''blogs'']" by simp
  have only: "set (blog_store (allowsBucket (Str ''blogs'')) (Str ''admin''))
                \<subseteq> set (makeArray (Many [Str ''delete'', Str ''get'', Str ''put'']))"
    by (simp add: blog_store_def example_defs)
  have listed: "Str ''blogs'' \<in> set (blog_store (resources_bucket default_options) (Str ''admin''))"
    by (simp add: blog_store_def example_defs)
  have hyp: "\<not> truthy_arg (Many [Str ''delete'', Str ''get'', Str ''put''])
     \<or> set (blog_store (allowsBucket (Str ''blogs'')) (Str ''admin''))
         \<subseteq> set (makeArray (Many [Str ''delete'', Str ''get'', Str ''put'']))"
    using only by blast
  show ?thesis
    using mem only listed
      removePermissions_drops_resource
        [where s = blog_store and resource = "Str ''blogs''" and resources = "[Str ''blogs'']"
           and permissions = "Many [Str ''delete'', Str ''get'', Str ''put'']"
           and role = "Str ''admin''" and opts = default_options, OF mem hyp]
    by simp
qed

section \<open>The role hierarchy\<close>

lemma set_rolesParents:
  "set (fst (rolesParents opts s roles)) = parent_edges opts s `` set roles"
  by (auto simp: rolesParents_def backend_union_def parent_edges_def)

lemma level_Nil: "level opts s [] n = []"
  by (induction n) (simp_all add: rolesParents_def backend_union_def)

lemma set_level: "set (level opts s roles n) = (parent_edges opts s ^^ n) `` set roles"
proof (induction n arbitrary: roles)
  case 0
  then show ?case by simp
next
  case (Suc n)
  have "set (level opts s roles (Suc n))
          = (parent_edges opts s ^^ n) `` (parent_edges opts s `` set roles)"
    by (simp add: Suc set_rolesParents)
  also have "\<dots> = (parent_edges opts s O parent_edges opts s ^^ n) `` set roles"
    by blast
  also have "\<dots> = (parent_edges opts s ^^ Suc n) `` set roles"
    by (simp add: relpow_commute)
  finally show ?case .
qed

lemma ancestors_levels: "ancestors opts s roles = (\<Union>n. set (level opts s roles n))"
  by (auto simp: ancestors_def set_level rtrancl_is_UN_relpow)

lemma granted_levels:
  "(\<exists>n. p \<in> granted s resource (level opts s roles n))
     = (\<exists>role \<in> ancestors opts s roles. p \<in> set (s (allowsBucket resource) role))"
  by (auto simp: granted_def ancestors_levels)

lemma acyclic_rank:
  assumes "finite r" and "acyclic r" and "(x, y) \<in> r"
  shows "card (r\<^sup>+ `` {y}) < card (r\<^sup>+ `` {x})"
proof (rule psubset_card_mono)
  show "finite (r\<^sup>+ `` {x})"
    using assms(1) by (simp add: finite_Image)
  have "y \<in> r\<^sup>+ `` {x}" using assms(3) by auto
  moreover have "y \<notin> r\<^sup>+ `` {y}" using assms(2) by (auto simp: acyclic_def)
  moreover have "r\<^sup>+ `` {y} \<subseteq> r\<^sup>+ `` {x}" using assms(3) by auto
  ultimately show "r\<^sup>+ `` {y} \<subset> r\<^sup>+ `` {x}" by blast
qed

lemma acyclic_relpow_rank:
  assumes "finite r" and "acyclic r"
  shows "(x, y) \<in> r ^^ n \<Longrightarrow> card (r\<^sup>+ `` {y}) + n \<le> card (r\<^sup>+ `` {x})"
proof (induction n arbitrary: y)
  case 0
  then show ?case by simp
next
  case (Suc n)
  then obtain z where "(x, z) \<in> r ^^ n" and "(z, y) \<in> r" by auto
  then show ?case
    using Suc.IH [of z] acyclic_rank [OF assms, of z y] by simp
qed

lemma elem_le_sum_list_map:
  fixes f :: "'a \<Rightarrow> nat"
  shows "x \<in> set xs \<Longrightarrow> f x \<le> sum_list (map f xs)"
  by (induction xs) auto

lemma levels_exhaust:
  assumes "finite (parent_edges opts s)" and "acyclic (parent_edges opts s)"
  shows "\<exists>n. level opts s roles n = []"
proof -
  let ?r = "parent_edges opts s"
  let ?rank = "\<lambda>x. card (?r\<^sup>+ `` {x})"
  let ?n = "Suc (sum_list (map ?rank roles))"
  have "set (level opts s roles ?n) = {}"
  proof (rule ccontr)
    assume "set (level opts s roles ?n) \<noteq> {}"
    then obtain x y where "x \<in> set roles" and "(x, y) \<in> ?r ^^ ?n"
      unfolding set_level by blast
    then have "?rank y + ?n \<le> ?rank x"
      using acyclic_relpow_rank [OF assms] by blast
    moreover have "?rank x \<le> sum_list (map ?rank roles)"
      using \<open>x \<in> set roles\<close> by (rule elem_le_sum_list_map)
    ultimately show False by simp
  qed
  then have "level opts s roles ?n = []" by (simp only: set_empty)
  then show ?thesis by (rule exI)
qed

section \<open>The allow check\<close>

lemma map_option_fst_bind:
  "map_option fst (Option.bind x (\<lambda>(a, l). Some (a, f l))) = map_option fst x"
  by (cases x) auto

lemma ex_level_Suc:
  "(\<exists>n. P (level opts s roles n)) = (P roles \<or> (\<exists>n. P (level opts s (fst (rolesParents opts s roles)) n)))"
proof
  assume "\<exists>n. P (level opts s roles n)"
  then obtain n where n: "P (level opts s roles n)" ..
  show "P roles \<or> (\<exists>n. P (level opts s (fst (rolesParents opts s roles)) n))"
    using n by (cases n) auto
next
  assume "P roles \<or> (\<exists>n. P (level opts s (fst (rolesParents opts s roles)) n))"
  then show "\<exists>n. P (level opts s roles n)"
  proof
    assume "P roles"
    then have "P (level opts s roles 0)" by simp
    then show ?thesis ..
  next
    assume "\<exists>n. P (level opts s (fst (rolesParents opts s roles)) n)"
    then obtain n where "P (level opts s roles (Suc n))" by auto
    then show ?thesis ..
  qed
qed

lemma checkPermissions_levels:
  assumes "level opts s roles n = []"
  shows "map_option fst (checkPermissions opts s roles resource permissions)
     = Some ((\<exists>j. Str ''*'' \<in> granted s resource (level opts s roles j))
           \<or> (\<forall>p \<in> set permissions. \<exists>j. p \<in> granted s resource (level opts s roles j)))"
  using assms
proof (induction n arbitrary: roles permissions)
  case 0
  then have "roles = []" by simp
  then show ?case
    by (subst checkPermissions.simps)
      (auto simp: level_Nil granted_def backend_union_def filter_empty_conv)
next
  case (Suc n)
  let ?G = "granted s resource roles"
  let ?parents = "fst (rolesParents opts s roles)"
  let ?rest = "filter (\<lambda>p. p \<notin> ?G) permissions"
  have G: "set (fst (backend_union s (allowsBucket resource) roles)) = ?G"
    by (simp add: granted_def backend_union_def)
  have split_wild: "(\<exists>j. Str ''*'' \<in> granted s resource (level opts s roles j))
     = (Str ''*'' \<in> ?G \<or> (\<exists>j. Str ''*'' \<in> granted s resource (level opts s ?parents j)))"
    by (rule ex_level_Suc [where P = "\<lambda>rs. Str ''*'' \<in> granted s resource rs"])
  have split_perm: "(\<exists>j. p \<in> granted s resource (level opts s roles j))
     = (p \<in> ?G \<or> (\<exists>j. p \<in> granted s resource (level opts s ?parents j)))" for p
    by (rule ex_level_Suc [where P = "\<lambda>rs. p \<in> granted s resource rs"])
  show ?case
  proof (cases "Str ''*'' \<in> ?G")
    case True
    then have "\<exists>j. Str ''*'' \<in> granted s resource (level opts s roles j)"
      using split_wild by blast
    moreover have "map_option fst (checkPermissions opts s roles resource permissions) = Some True"
      using True by (subst checkPermissions.simps) (simp add: backend_union_def granted_def)
    ultimately show ?thesis by simp
  next
    case nowild: False
    show ?thesis
    proof (cases "?rest = []")
      case True
      then have "\<forall>p \<in> set permissions. p \<in> ?G"
        by (auto simp: filter_empty_conv)
      then have "\<forall>p \<in> set permissions. \<exists>j. p \<in> granted s resource (level opts s roles j)"
        using split_perm by blast
      moreover have "map_option fst (checkPermissions opts s roles resource permissions) = Some True"
        using nowild True
        by (subst checkPermissions.simps) (simp add: backend_union_def granted_def)
      ultimately show ?thesis by simp
    next
      case rest: False
      show ?thesis
      proof (cases "?parents = []")
        case True
        then have none: "granted s resource (level opts s ?parents j) = {}" for j
          by (simp add: level_Nil granted_def)
        obtain p where "p \<in> set permissions" "p \<notin> ?G"
          using rest by (auto simp: filter_empty_conv)
        then have "\<not> (\<forall>p \<in> set permissions. \<exists>j. p \<in> granted s resource (level opts s roles j))"
          using split_perm none by auto
        moreover have "\<not> (\<exists>j. Str ''*'' \<in> granted s resource (level opts s roles j))"
          using split_wild nowild none by simp
        ultimately have rhs: "((\<exists>j. Str ''*'' \<in> granted s resource (level opts s roles j))
           \<or> (\<forall>p \<in> set permissions. \<exists>j. p \<in> granted s resource (level opts s roles j)))
           = False"
          by blast
        have lhs: "map_option fst (checkPermissions opts s roles resource permissions) = Some False"
          using nowild rest True
          by (subst checkPermissions.simps)
            (simp add: backend_union_def granted_def rolesParents_def)
        show ?thesis unfolding lhs rhs by (rule refl)
      next
        case False
        have unfold: "map_option fst (checkPermissions opts s roles resource permissions)
                = map_option fst (checkPermissions opts s ?parents resource ?rest)"
          using nowild rest False
          by (subst checkPermissions.simps)
            (simp add: backend_union_def granted_def rolesParents_def map_option_fst_bind
              split: prod.splits)
        have "level opts s ?parents n = []" using Suc.prems by simp
        note IH = Suc.IH [OF this, of ?rest]
        have "(\<forall>p \<in> set ?rest. \<exists>j. p \<in> granted s resource (level opts s ?parents j))
            = (\<forall>p \<in> set permissions. \<exists>j. p \<in> granted s resource (level opts s roles j))"
          using split_perm by auto
        then show ?thesis
          using unfold IH split_wild nowild by simp
      qed
    qed
  qed
qed


lemma map_option_fst_map:
  "map_option fst (map_option (\<lambda>(a, l). (a, f l)) x) = map_option fst x"
  by (cases x) auto

lemma isAllowed_checkPermissions:
  assumes "s (users_bucket opts) userId \<noteq> []"
  shows "map_option fst (isAllowed opts s userId resource permissions)
     = map_option fst (checkPermissions opts s (s (users_bucket opts) userId) resource
         (makeArray permissions))"
  using assms
  by (simp add: isAllowed_def areAnyRolesAllowed_def backend_get_def map_option_fst_map)

lemma covered_levels:
  "((\<exists>j. Str ''*'' \<in> granted s resource (level opts s roles j))
      \<or> (\<forall>p \<in> set permissions. \<exists>j. p \<in> granted s resource (level opts s roles j)))
   = (\<forall>p \<in> set permissions. covered opts s roles resource p)"
  unfolding granted_levels covered_def by blast

text \<open>
  Claim C1. On a finite acyclic role hierarchy, for a user who is directly assigned a role
  \<open>A\<close>: when a role \<open>B\<close> is reachable from \<open>A\<close> through parent edges and \<open>B\<close> is granted
  \<open>p\<close> on the resource, \<open>isAllowed\<close> returns true for \<open>p\<close>, whether or not \<open>A\<close> has a
  grant of its own; and in general \<open>isAllowed\<close> returns, and returns true exactly when every
  required permission is covered by the user's roles or their ancestors (by a grant of the
  permission or of the wildcard), hence false only when some required permission is still
  unmet after the whole hierarchy above the user's roles.
\<close>

theorem isAllowed_inheritance:
  assumes "finite (parent_edges opts s)" and "acyclic (parent_edges opts s)"
    and "A \<in> set (s (users_bucket opts) userId)"
  shows "((A, B) \<in> (parent_edges opts s)\<^sup>* \<and> p \<in> set (s (allowsBucket resource) B) \<longrightarrow>
            map_option fst (isAllowed opts s userId resource (One p)) = Some True)
    \<and> map_option fst (isAllowed opts s userId resource permissions)
        = Some (\<forall>p \<in> set (makeArray permissions).
                  covered opts s (s (users_bucket opts) userId) resource p)"
proof -
  let ?roles = "s (users_bucket opts) userId"
  have nonempty: "?roles \<noteq> []" using assms(3) by auto
  obtain n where n: "level opts s ?roles n = []"
    using levels_exhaust [OF assms(1,2)] by blast
  have general: "map_option fst (isAllowed opts s userId resource perms)
        = Some (\<forall>p \<in> set (makeArray perms). covered opts s ?roles resource p)" for perms
    unfolding isAllowed_checkPermissions [where s = s and opts = opts and userId = userId,
        OF nonempty] checkPermissions_levels [OF n] covered_levels ..
  have "map_option fst (isAllowed opts s userId resource (One p)) = Some True"
    if "(A, B) \<in> (parent_edges opts s)\<^sup>*" and "p \<in> set (s (allowsBucket resource) B)"
  proof -
    have "B \<in> ancestors opts s ?roles"
      using that(1) assms(3) by (auto simp: ancestors_def)
    then have "covered opts s ?roles resource p"
      using that(2) by (auto simp: covered_def)
    then show ?thesis by (simp add: general)
  qed
  with general show ?thesis by blast
qed

lemma inherit_store_edges:
  "parent_edges default_options inherit_store = {(Str ''A'', Str ''B'')}"
  by (auto simp: parent_edges_def inherit_store_def example_defs split: if_splits)

theorem isAllowed_inheritance_witness:
  "finite (parent_edges default_options inherit_store)
   \<and> acyclic (parent_edges default_options inherit_store)
   \<and> Str ''A'' \<in> set (inherit_store (users_bucket default_options) (Str ''u1''))
   \<and> (Str ''A'', Str ''B'') \<in> (parent_edges default_options inherit_store)\<^sup>*
   \<and> Str ''read'' \<in> set (inherit_store (allowsBucket (Str ''doc'')) (Str ''B''))
   \<and> inherit_store (allowsBucket (Str ''doc'')) (Str ''A'') = []
   \<and> map_option fst
        (isAllowed default_options inherit_store (Str ''u1'') (Str ''doc'') (One (Str ''read'')))
       = Some True"
proof -
  have fin: "finite (parent_edges default_options inherit_store)"
    by (simp add: inherit_store_edges)
  have acyc: "acyclic (parent_edges default_options inherit_store)"
    by (simp add: inherit_store_edges acyclic_insert acyclic_def [of "{}"])
  have role: "Str ''A'' \<in> set (inherit_store (users_bucket default_options) (Str ''u1''))"
    by (simp add: inherit_store_def example_defs)
  have path: "(Str ''A'', Str ''B'') \<in> (parent_edges default_options inherit_store)\<^sup>*"
    unfolding inherit_store_edges by (rule r_into_rtrancl) simp
  have grant: "Str ''read'' \<in> set (inherit_store (allowsBucket (Str ''doc'')) (Str ''B''))"
    by (simp add: inherit_store_def example_defs)
  have direct: "inherit_store (allowsBucket (Str ''doc'')) (Str ''A'') = []"
    by (simp add: inherit_store_def example_defs)
  show ?thesis
    using fin acyc role path grant direct
      isAllowed_inheritance [OF fin acyc role, of "Str ''B''" "Str ''read''" "Str ''doc''"]
    by simp
qed

section \<open>Bulk queries\<close>

lemma set_lodash_union: "set (lodash_union xs ys) = set xs \<union> set ys"
  by (auto simp: lodash_union_def)

lemma levels_Suc:
  "(\<Union>n. F (level opts s roles n))
     = F roles \<union> (\<Union>n. F (level opts s (fst (rolesParents opts s roles)) n))"
proof (rule set_eqI)
  fix x
  show "x \<in> (\<Union>n. F (level opts s roles n))
      \<longleftrightarrow> x \<in> F roles \<union> (\<Union>n. F (level opts s (fst (rolesParents opts s roles)) n))"
    unfolding Un_iff UN_iff bex_UNIV
    by (rule ex_level_Suc [where P = "\<lambda>rs. x \<in> F rs"])
qed

lemma permitted_levels:
  "permitted opts s roles (allowsBucket resource)
     = (\<Union>n. granted s resource (level opts s roles n))"
  by (auto simp: permitted_def granted_def ancestors_levels)

lemma map_option_fst_bind_pair:
  "map_option fst (Option.bind x (\<lambda>(a, l). Some (g a, f l))) = map_option g (map_option fst x)"
  by (cases x) auto

lemma allRoles_fst:
  "map_option fst (allRoles opts s roles)
     = (if fst (rolesParents opts s roles) \<noteq> []
        then map_option (lodash_union roles)
               (map_option fst (allRoles opts s (fst (rolesParents opts s roles))))
        else Some roles)"
  by (subst allRoles.simps)
    (simp add: map_option_fst_bind_pair split: prod.splits)

lemma resourcePermissions_fst:
  "map_option fst (resourcePermissions opts s roles resource)
     = (if roles = [] then Some []
        else if fst (rolesParents opts s roles) \<noteq> []
        then map_option (lodash_union (fst (backend_union s (allowsBucket resource) roles)))
               (map_option fst
                  (resourcePermissions opts s (fst (rolesParents opts s roles)) resource))
        else Some (fst (backend_union s (allowsBucket resource) roles)))"
  by (subst resourcePermissions.simps)
    (simp add: map_option_fst_bind_pair split: prod.splits)

lemma allRoles_levels:
  assumes "level opts s roles n = []"
  shows "\<exists>xs. map_option fst (allRoles opts s roles) = Some xs
           \<and> set xs = ancestors opts s roles"
  using assms
proof (induction n arbitrary: roles)
  case 0
  then have "roles = []" by simp
  then have "map_option fst (allRoles opts s roles) = Some []"
    by (subst allRoles_fst) (simp add: rolesParents_def backend_union_def)
  moreover have "ancestors opts s roles = {}"
    using \<open>roles = []\<close> by (simp add: ancestors_def)
  ultimately show ?case by simp
next
  case (Suc n)
  let ?parents = "fst (rolesParents opts s roles)"
  have anc: "ancestors opts s roles = set roles \<union> ancestors opts s ?parents"
    unfolding ancestors_levels by (rule levels_Suc [where F = set])
  show ?case
  proof (cases "?parents = []")
    case True
    then have "ancestors opts s ?parents = {}" by (simp add: ancestors_def)
    then have "set roles = ancestors opts s roles" using anc by simp
    moreover have "map_option fst (allRoles opts s roles) = Some roles"
      using True by (subst allRoles_fst) simp
    ultimately show ?thesis by blast
  next
    case False
    have "level opts s ?parents n = []" using Suc.prems by simp
    from Suc.IH [OF this] obtain ys where
      ys: "map_option fst (allRoles opts s ?parents) = Some ys" "set ys = ancestors opts s ?parents"
      by blast
    have "map_option fst (allRoles opts s roles) = Some (lodash_union roles ys)"
      using False by (subst allRoles_fst) (simp add: ys(1))
    moreover have "set (lodash_union roles ys) = ancestors opts s roles"
      using anc ys(2) by (simp add: set_lodash_union)
    ultimately show ?thesis by blast
  qed
qed

lemma resourcePermissions_levels:
  assumes "level opts s roles n = []"
  shows "\<exists>ps. map_option fst (resourcePermissions opts s roles resource) = Some ps
           \<and> set ps = permitted opts s roles (allowsBucket resource)"
  using assms
proof (induction n arbitrary: roles)
  case 0
  then have "roles = []" by simp
  then have "map_option fst (resourcePermissions opts s roles resource) = Some []"
    by (subst resourcePermissions_fst) simp
  moreover have "permitted opts s roles (allowsBucket resource) = {}"
    using \<open>roles = []\<close> by (simp add: permitted_def ancestors_def)
  ultimately show ?case by simp
next
  case (Suc n)
  let ?parents = "fst (rolesParents opts s roles)"
  let ?G = "fst (backend_union s (allowsBucket resource) roles)"
  have G: "set ?G = granted s resource roles"
    by (simp add: granted_def backend_union_def)
  have per: "permitted opts s roles (allowsBucket resource)
               = granted s resource roles \<union> permitted opts s ?parents (allowsBucket resource)"
    unfolding permitted_levels by (rule levels_Suc [where F = "granted s resource"])
  show ?case
  proof (cases "roles = []")
    case True
    then have "map_option fst (resourcePermissions opts s roles resource) = Some []"
      by (subst resourcePermissions_fst) simp
    moreover have "permitted opts s roles (allowsBucket resource) = {}"
      using True by (simp add: permitted_def ancestors_def)
    ultimately show ?thesis by simp
  next
    case roles: False
    show ?thesis
    proof (cases "?parents = []")
      case True
      then have "permitted opts s ?parents (allowsBucket resource) = {}"
        by (simp add: permitted_def ancestors_def)
      then have "set ?G = permitted opts s roles (allowsBucket resource)"
        using per G by simp
      moreover have "map_option fst (resourcePermissions opts s roles resource) = Some ?G"
        using True roles by (subst resourcePermissions_fst) simp
      ultimately show ?thesis by blast
    next
      case False
      have "level opts s ?parents n = []" using Suc.prems by simp
      from Suc.IH [OF this] obtain ps where
        ps: "map_option fst (resourcePermissions opts s ?parents resource) = Some ps"
          "set ps = permitted opts s ?parents (allowsBucket resource)"
        by blast
      have "map_option fst (resourcePermissions opts s roles resource)
                   = Some (lodash_union ?G ps)"
        using False roles by (subst resourcePermissions_fst) (simp add: ps(1))
      moreover have "set (lodash_union ?G ps) = permitted opts s roles (allowsBucket resource)"
        using per G ps(2) by (simp add: set_lodash_union)
      ultimately show ?thesis by blast
    qed
  qed
qed

lemma foldl_update_lookup:
  assumes "\<forall>x \<in> set xs. set (g x) = H (f x)"
  shows "map_option set (map_of (foldl (\<lambda>obj x. AList.update (f x) (g x) obj) acc xs) key)
     = (if key \<in> f ` set xs then Some (H key) else map_option set (map_of acc key))"
  using assms
proof (induction xs arbitrary: acc)
  case Nil
  then show ?case by simp
next
  case (Cons x xs)
  then show ?case by (auto simp: update_conv')
qed

lemma set_update_subset: "set (AList.update k v al) \<subseteq> insert (k, v) (set al)"
  by (induction al) auto

lemma foldl_update_entries:
  assumes "\<forall>e \<in> set acc. P (fst e) (snd e)" and "\<forall>x \<in> set xs. P (f x) (g x)"
  shows "\<forall>e \<in> set (foldl (\<lambda>obj x. AList.update (f x) (g x) obj) acc xs). P (fst e) (snd e)"
  using assms
proof (induction xs arbitrary: acc)
  case Nil
  then show ?case by simp
next
  case (Cons x xs)
  have "\<forall>e \<in> set (AList.update (f x) (g x) acc). P (fst e) (snd e)"
    using Cons.prems set_update_subset [of "f x" "g x" acc] by auto
  then show ?case using Cons by simp
qed

lemma foldl_update_keys:
  "fst ` set (foldl (\<lambda>obj x. AList.update (f x) (g x) obj) acc xs) = fst ` set acc \<union> f ` set xs"
  by (induction xs arbitrary: acc) (auto simp: dom_update)

lemma keyFromAllowsBucket_allowsBucket: "keyFromAllowsBucket (allowsBucket resource) = toString resource"
  by (simp add: keyFromAllowsBucket_def allowsBucket_def)


lemma allowsBucket_key: "''allows_'' @ toString resource = allowsBucket resource"
  by (simp add: allowsBucket_def)

lemma allUserRoles_levels:
  assumes "level opts s (s (users_bucket opts) userId) n = []"
  shows "\<exists>all. map_option fst (allUserRoles opts s userId) = Some all
           \<and> set all = ancestors opts s (s (users_bucket opts) userId)"
proof (cases "s (users_bucket opts) userId = []")
  case True
  then show ?thesis
    by (simp add: allUserRoles_def userRoles_def backend_get_def ancestors_def)
next
  case False
  from allRoles_levels [OF assms] obtain xs where
    xs: "map_option fst (allRoles opts s (s (users_bucket opts) userId)) = Some xs"
      "set xs = ancestors opts s (s (users_bucket opts) userId)"
    by blast
  have "map_option fst (allUserRoles opts s userId) = Some xs"
    using False xs(1)
    by (simp add: allUserRoles_def userRoles_def backend_get_def map_option_fst_map)
  then show ?thesis using xs(2) by blast
qed

lemma foldl_resources:
  assumes "\<forall>r \<in> set resources. \<exists>ps. map_option fst (X r) = Some ps"
  shows "map_option fst
       (foldl (\<lambda>acc resource.
            case acc of
              None \<Rightarrow> None
            | Some (result, l) \<Rightarrow>
                (case X resource of
                   None \<Rightarrow> None
                 | Some (permissions, l2) \<Rightarrow>
                     Some (AList.update (K resource) permissions result, l @ l2)))
          (Some (acc, l)) resources)
     = Some (foldl (\<lambda>obj r. AList.update (K r) (fst (the (X r))) obj) acc resources)"
  using assms
proof (induction resources arbitrary: acc l)
  case Nil
  then show ?case by simp
next
  case (Cons r resources)
  then obtain ps l2 where X: "X r = Some (ps, l2)" by auto
  have rest: "\<forall>r \<in> set resources. \<exists>ps. map_option fst (X r) = Some ps"
    using Cons.prems by simp
  show ?case
    using Cons.IH [OF rest, of "AList.update (K r) ps acc" "l @ l2"] by (simp add: X)
qed

lemma slow_lookup:
  assumes "truthy userId" and "level opts s (s (users_bucket opts) userId) n = []"
  shows "\<exists>result. map_option fst (allowedPermissions opts False s userId resources)
                     = Some (Inr result)
           \<and> (\<forall>key. map_option set (map_of result key)
                 = (if key \<in> toString ` set (makeArray resources)
                    then Some (permitted opts s (s (users_bucket opts) userId) (''allows_'' @ key))
                    else None))"
proof -
  let ?roles = "s (users_bucket opts) userId"
  let ?X = "\<lambda>r. resourcePermissions opts s ?roles r"
  let ?result = "foldl (\<lambda>obj r. AList.update (toString r) (fst (the (?X r))) obj) []
                   (makeArray resources)"
  have total: "\<exists>ps. map_option fst (?X r) = Some ps
                 \<and> set ps = permitted opts s ?roles (allowsBucket r)" for r
    by (rule resourcePermissions_levels [OF assms(2)])
  then have "\<forall>r \<in> set (makeArray resources). \<exists>ps. map_option fst (?X r) = Some ps"
    by blast
  note fold_eq = foldl_resources [OF this, of toString "[]"]
  have result_eq: "map_option fst (allowedPermissions opts False s userId resources)
                 = Some (Inr ?result)"
  proof -
    have "map_option fst (map_option (\<lambda>(result, l). (Inr result :: error + obj, l)) y)
            = map_option Inr (map_option fst y)" for y :: "(obj \<times> read list) option"
      by (cases y) auto
    then show ?thesis
      using assms(1)
      by (simp add: allowedPermissions_def userRoles_def backend_get_def fold_eq)
  qed
  have sets: "\<forall>r \<in> set (makeArray resources).
                set (fst (the (?X r)))
                  = permitted opts s ?roles (''allows_'' @ toString r)"
  proof
    fix r
    from total [of r] obtain ps where ps: "map_option fst (?X r) = Some ps"
      "set ps = permitted opts s ?roles (allowsBucket r)" by blast
    from ps(1) have "fst (the (?X r)) = ps" by (cases "?X r") simp_all
    then show "set (fst (the (?X r))) = permitted opts s ?roles (''allows_'' @ toString r)"
      using ps(2) by (simp only: allowsBucket_key)
  qed
  have "map_option set (map_of ?result key)
          = (if key \<in> toString ` set (makeArray resources)
             then Some (permitted opts s ?roles (''allows_'' @ key)) else None)" for key
    using foldl_update_lookup
      [where f = toString and g = "\<lambda>r. fst (the (?X r))"
         and H = "\<lambda>key. permitted opts s ?roles (''allows_'' @ key)"
         and xs = "makeArray resources" and acc = "[]" and key = key, OF sets]
    by (simp only: map_of.simps(1) option.map(1))
  with result_eq show ?thesis by blast
qed


lemma fast_lookup:
  assumes "truthy userId" and "level opts s (s (users_bucket opts) userId) n = []"
  shows "\<exists>result. map_option fst (optimizedAllowedPermissions opts s userId resources)
                     = Some (Inr result)
           \<and> (\<forall>key. map_option set (map_of result key)
                 = (if key \<in> toString ` set (makeArray resources)
                    then Some (permitted opts s (s (users_bucket opts) userId) (''allows_'' @ key))
                    else None))"
proof -
  let ?roles = "s (users_bucket opts) userId"
  let ?buckets = "map allowsBucket (makeArray resources)"
  from allUserRoles_levels [OF assms(2)] obtain all l1 where
    all: "allUserRoles opts s userId = Some (all, l1)" "set all = ancestors opts s ?roles"
    by auto
  let ?V = "\<lambda>bucket. if all = [] then [] else remdups (concat (map (s bucket) all))"
  let ?response = "foldl (\<lambda>obj bucket. AList.update bucket (?V bucket) obj) [] ?buckets"
  let ?result = "foldl (\<lambda>result x. AList.update (keyFromAllowsBucket (fst x)) (snd x) result)
                   [] ?response"
  have V: "set (?V bucket) = permitted opts s ?roles bucket" for bucket
    using all(2) by (auto simp: permitted_def)
  have result_eq: "map_option fst (optimizedAllowedPermissions opts s userId resources)
                 = Some (Inr ?result)"
  proof (cases "all = []")
    case True
    then show ?thesis
      using assms(1) all(1)
      by (simp add: optimizedAllowedPermissions_def case_prod_unfold Let_def)
  next
    case False
    then show ?thesis
      using assms(1) all(1)
      by (simp add: optimizedAllowedPermissions_def backend_unions_def case_prod_unfold Let_def)
  qed
  have "\<forall>e \<in> set ?response.
          fst e \<in> set ?buckets \<and> set (snd e) = permitted opts s ?roles (fst e)"
    by (rule foldl_update_entries
          [where P = "\<lambda>k v. k \<in> set ?buckets \<and> set v = permitted opts s ?roles k"
             and f = "\<lambda>bucket. bucket" and g = ?V and acc = "[]" and xs = ?buckets])
      (simp_all add: V)
  then have entry: "fst x \<in> set ?buckets \<and> set (snd x) = permitted opts s ?roles (fst x)"
    if "x \<in> set ?response" for x
    using that by (rule bspec)
  have entries: "\<forall>x \<in> set ?response.
      set (snd x) = permitted opts s ?roles (''allows_'' @ keyFromAllowsBucket (fst x))"
  proof
    fix x
    assume x: "x \<in> set ?response"
    then obtain r where r: "fst x = allowsBucket r"
      using entry [OF x] by auto
    have "''allows_'' @ keyFromAllowsBucket (fst x) = fst x"
      unfolding r keyFromAllowsBucket_allowsBucket by (rule allowsBucket_key)
    then show "set (snd x)
        = permitted opts s ?roles (''allows_'' @ keyFromAllowsBucket (fst x))"
      using entry [OF x] by (simp only:)
  qed
  have "fst ` set ?response = fst ` set ([] :: obj) \<union> (\<lambda>bucket. bucket) ` set ?buckets"
    by (rule foldl_update_keys
          [where f = "\<lambda>bucket. bucket" and g = ?V and acc = "[]" and xs = ?buckets])
  then have keys0: "fst ` set ?response = set ?buckets"
    by simp
  have "(\<lambda>x. keyFromAllowsBucket (fst x)) ` set ?response
          = keyFromAllowsBucket ` (fst ` set ?response)"
    by (simp only: image_image)
  also have "\<dots> = keyFromAllowsBucket ` set ?buckets"
    by (simp only: keys0)
  also have "\<dots> = toString ` set (makeArray resources)"
    by (simp add: image_image keyFromAllowsBucket_allowsBucket)
  finally have keys: "(\<lambda>x. keyFromAllowsBucket (fst x)) ` set ?response
                     = toString ` set (makeArray resources)" .
  have "map_option set (map_of ?result key)
          = (if key \<in> toString ` set (makeArray resources)
             then Some (permitted opts s ?roles (''allows_'' @ key)) else None)" for key
    using foldl_update_lookup
      [where f = "\<lambda>x. keyFromAllowsBucket (fst x)" and g = snd
         and H = "\<lambda>key. permitted opts s ?roles (''allows_'' @ key)"
         and xs = ?response and acc = "[]" and key = key, OF entries]
    unfolding keys by (simp only: map_of.simps(1) option.map(1))
  with result_eq show ?thesis by blast
qed


text \<open>
  Claim C6. On a finite acyclic role hierarchy, for every user id and requested resources,
  the optimized bulk query (the user's full role closure, one \<^verbatim>\<open>unions\<close> call, the keys
  mapped back through \<open>keyFromAllowsBucket\<close>) and the non-optimized path of
  \<open>allowedPermissions\<close> (the user's direct roles, one recursive union per resource) both
  return, and return the same mapping from resource to permission set.
\<close>

theorem optimized_agrees:
  assumes "finite (parent_edges opts s)" and "acyclic (parent_edges opts s)"
  shows "\<exists>fast slow.
           map_option fst (allowedPermissions opts True s userId resources) = Some fast
         \<and> map_option fst (allowedPermissions opts False s userId resources) = Some slow
         \<and> same_mapping fast slow"
proof (cases "truthy userId")
  case False
  then have "map_option fst (allowedPermissions opts True s userId resources)
               = Some (Inl (ReferenceError ''cb''))"
    and "map_option fst (allowedPermissions opts False s userId resources)
               = Some (Inl (ReferenceError ''cb''))"
    by (simp_all add: allowedPermissions_def)
  moreover have "same_mapping (Inl (ReferenceError ''cb'')) (Inl (ReferenceError ''cb''))"
    by simp
  ultimately show ?thesis by blast
next
  case True
  obtain n where n: "level opts s (s (users_bucket opts) userId) n = []"
    using levels_exhaust [OF assms] by blast
  from fast_lookup [OF True n, of resources] obtain a where
    a: "map_option fst (optimizedAllowedPermissions opts s userId resources) = Some (Inr a)"
      "\<forall>key. map_option set (map_of a key)
                 = (if key \<in> toString ` set (makeArray resources)
                    then Some (permitted opts s (s (users_bucket opts) userId) (''allows_'' @ key))
                    else None)"
    by blast
  from slow_lookup [OF True n, of resources] obtain b where
    b: "map_option fst (allowedPermissions opts False s userId resources) = Some (Inr b)"
      "\<forall>key. map_option set (map_of b key)
                 = (if key \<in> toString ` set (makeArray resources)
                    then Some (permitted opts s (s (users_bucket opts) userId) (''allows_'' @ key))
                    else None)"
    by blast
  have "allowedPermissions opts True s userId resources
          = optimizedAllowedPermissions opts s userId resources"
    using True by (simp add: allowedPermissions_def)
  then have "map_option fst (allowedPermissions opts True s userId resources) = Some (Inr a)"
    using a(1) by (simp only:)
  moreover have "same_mapping (Inr a) (Inr b)"
    unfolding same_mapping.simps by (simp only: a(2) b(2) simp_thms)
  ultimately show ?thesis using b(1) by blast
qed

theorem optimized_agrees_witness:
  "finite (parent_edges default_options inherit_store)
   \<and> acyclic (parent_edges default_options inherit_store)
   \<and> map_option fst
        (allowedPermissions default_options True inherit_store (Str ''u1'')
           (Many [Str ''doc'', Str ''news'']))
       = Some (Inr [(''doc'', [Str ''read'']), (''news'', [])])
   \<and> map_option fst
        (allowedPermissions default_options False inherit_store (Str ''u1'')
           (Many [Str ''doc'', Str ''news'']))
       = Some (Inr [(''doc'', [Str ''read'']), (''news'', [])])
   \<and> same_mapping (Inr [(''doc'', [Str ''read'']), (''news'', [])])
         (Inr [(''doc'', [Str ''read'']), (''news'', [])])"
proof -
  have fin: "finite (parent_edges default_options inherit_store)"
    by (simp add: inherit_store_edges)
  have acyc: "acyclic (parent_edges default_options inherit_store)"
    by (simp add: inherit_store_edges acyclic_insert acyclic_def [of "{}"])
  have fast: "map_option fst
        (allowedPermissions default_options True inherit_store (Str ''u1'')
           (Many [Str ''doc'', Str ''news'']))
       = Some (Inr [(''doc'', [Str ''read'']), (''news'', [])])"
    by code_simp
  have slow: "map_option fst
        (allowedPermissions default_options False inherit_store (Str ''u1'')
           (Many [Str ''doc'', Str ''news'']))
       = Some (Inr [(''doc'', [Str ''read'']), (''news'', [])])"
    by code_simp
  from optimized_agrees [OF fin acyc, of "Str ''u1''" "Many [Str ''doc'', Str ''news'']"]
  have "same_mapping (Inr [(''doc'', [Str ''read'']), (''news'', [])])
         (Inr [(''doc'', [Str ''read'']), (''news'', [])])"
    unfolding fast slow by blast
  with fin acyc fast slow show ?thesis by blast
qed

end
